theory Spec2Isabelle
  imports Main "HOL-Library.Sublist"
begin

section \<open>JavaScript values and records\<close>

text \<open>
  The values that travel through \<open>src/index.ts\<close> are opaque to it: parameters, results and
  errors are only inspected with \<open>Array.isArray\<close>, \<open>typeof\<close> and comparisons with
  \<open>null\<close>. Numbers are carried as integers; no function of the file computes with them.
  Objects are plain data: their properties are writable, enumerable data properties.

  A \<open>Record<string, any>\<close> is given by its own properties, as an association list in the
  order in which \<open>Object.keys\<close> enumerates them: the keys that are array indices in
  ascending numeric order, then the other keys in the order of their creation. A
  well-formed record has pairwise distinct keys. The prototype of an object is not part
  of its value; a record made by \<open>{}\<close> has the prototype \<open>Object.prototype\<close>, on which
  \<open>__proto__\<close> is an accessor.
\<close>

datatype jsvalue =
    JUndefined
  | JNull
  | JBool bool
  | JNum int
  | JStr string
  | JArr "jsvalue list"
  | JObj "(string \<times> jsvalue) list"

type_synonym jsrecord = "(string \<times> jsvalue) list"

fun isArray :: "jsvalue \<Rightarrow> bool" where
  "isArray (JArr _) = True"
| "isArray _ = False"

definition Object_keys :: "jsrecord \<Rightarrow> string list" where
  "Object_keys params = map fst params"

text \<open>\<open>params[key]\<close>: reading a key that is not there gives \<open>undefined\<close>.\<close>

definition get_prop :: "jsrecord \<Rightarrow> string \<Rightarrow> jsvalue" where
  "get_prop params key = (case map_of params key of None \<Rightarrow> JUndefined | Some v \<Rightarrow> v)"

text \<open>
  A key is an array index when it is the canonical decimal numeral of an integer from
  \<open>0\<close> to \<open>2^32 - 2\<close>: digits only, no leading zero except for \<open>0\<close> itself.
\<close>

definition digit_of :: "char \<Rightarrow> nat option" where
  "digit_of c =
     map_of [(CHR ''0'', 0), (CHR ''1'', 1), (CHR ''2'', 2), (CHR ''3'', 3), (CHR ''4'', 4),
             (CHR ''5'', 5), (CHR ''6'', 6), (CHR ''7'', 7), (CHR ''8'', 8), (CHR ''9'', 9)] c"

fun digits_value :: "string \<Rightarrow> nat \<Rightarrow> nat option" where
  "digits_value [] acc = Some acc"
| "digits_value (c # cs) acc =
     (case digit_of c of None \<Rightarrow> None | Some d \<Rightarrow> digits_value cs (10 * acc + d))"

definition array_index :: "string \<Rightarrow> nat option" where
  "array_index key =
     (case key of
        [] \<Rightarrow> None
      | c # cs \<Rightarrow>
          if c = CHR ''0'' \<and> cs \<noteq> [] then None
          else (case digits_value key 0 of
                  None \<Rightarrow> None
                | Some n \<Rightarrow> if n \<le> 4294967294 then Some n else None))"

text \<open>The order of \<open>Object.keys\<close> on two keys: array indices by their number, an array
  index before any other key, other keys as they come.\<close>

definition key_precedes :: "string \<Rightarrow> string \<Rightarrow> bool" where
  "key_precedes k1 k2 =
     (case array_index k2 of
        None \<Rightarrow> True
      | Some n \<Rightarrow> (case array_index k1 of None \<Rightarrow> False | Some m \<Rightarrow> m \<le> n))"

definition in_keys_order :: "jsrecord \<Rightarrow> bool" where
  "in_keys_order r = sorted_wrt key_precedes (map fst r)"

definition hasOwnProperty :: "jsrecord \<Rightarrow> string \<Rightarrow> bool" where
  "hasOwnProperty r key \<longleftrightarrow> key \<in> set (map fst r)"

text \<open>An own property takes a new value and keeps its place.\<close>

fun update_prop :: "jsrecord \<Rightarrow> string \<Rightarrow> jsvalue \<Rightarrow> jsrecord" where
  "update_prop [] key value = []"
| "update_prop ((k, v) # rest) key value =
     (if k = key then (key, value) # rest else (k, v) # update_prop rest key value)"

text \<open>A new property whose key is the array index \<open>n\<close> is enumerated after the array
  indices up to \<open>n\<close> and before every other key.\<close>

fun insert_index :: "nat \<Rightarrow> string \<times> jsvalue \<Rightarrow> jsrecord \<Rightarrow> jsrecord" where
  "insert_index n kv [] = [kv]"
| "insert_index n kv (e # es) =
     (case array_index (fst e) of
        None \<Rightarrow> kv # e # es
      | Some m \<Rightarrow> if m \<le> n then e # insert_index n kv es else kv # e # es)"

text \<open>
  \<open>result[key] = value\<close> on an object whose prototype is \<open>Object.prototype\<close>: an own
  property is updated; otherwise the key \<open>__proto__\<close> reaches the accessor of the
  prototype, which creates no own property; any other key becomes a new own property,
  at the place where \<open>Object.keys\<close> enumerates it.
\<close>

definition set_prop :: "jsrecord \<Rightarrow> string \<Rightarrow> jsvalue \<Rightarrow> jsrecord" where
  "set_prop r key value =
     (if hasOwnProperty r key then update_prop r key value
      else if key = ''__proto__'' then r
      else (case array_index key of
              None \<Rightarrow> r @ [(key, value)]
            | Some n \<Rightarrow> insert_index n (key, value) r))"

section \<open>REST parameter encoding\<close>

text \<open>
  \<open>s.lastIndexOf(ending)\<close>: the greatest index \<open>k\<close> with \<open>k + |ending| \<le> |s|\<close> at which
  \<open>ending\<close> occurs in \<open>s\<close>, and \<open>-1\<close> when there is none. The search runs downwards from
  \<open>|s| - |ending|\<close>.
\<close>

fun lastIndexOf_from :: "string \<Rightarrow> string \<Rightarrow> nat \<Rightarrow> int" where
  "lastIndexOf_from s ending 0 = (if take (length ending) s = ending then 0 else - 1)"
| "lastIndexOf_from s ending (Suc k) =
     (if take (length ending) (drop (Suc k) s) = ending then int (Suc k)
      else lastIndexOf_from s ending k)"

definition lastIndexOf :: "string \<Rightarrow> string \<Rightarrow> int" where
  "lastIndexOf s ending =
     (if length s < length ending then - 1
      else lastIndexOf_from s ending (length s - length ending))"

definition endsWith :: "string \<Rightarrow> string \<Rightarrow> bool" where
  "endsWith s ending =
     (let index = lastIndexOf s ending
      in index \<ge> 0 \<and> index = int (length s) - int (length ending))"

definition toArrayKey :: "string \<Rightarrow> string" where
  "toArrayKey key = (if endsWith key ''[]'' then key else key @ ''[]'')"

definition fixArrayQueryParams :: "jsrecord \<Rightarrow> jsrecord" where
  "fixArrayQueryParams params =
     fold (\<lambda>key result.
             let value = get_prop params key;
                 fixedKey = (if isArray value then toArrayKey key else key)
             in set_prop result fixedKey value)
          (Object_keys params) []"

text \<open>The key under which the encoding stores one entry of the parameter record.\<close>

definition encodedKey :: "string \<times> jsvalue \<Rightarrow> string" where
  "encodedKey kv = (if isArray (snd kv) then toArrayKey (fst kv) else fst kv)"

definition encodeEntry :: "string \<times> jsvalue \<Rightarrow> string \<times> jsvalue" where
  "encodeEntry kv = (encodedKey kv, snd kv)"

text \<open>A record is in encoded form when its keys are pairwise distinct and in the order of
  \<open>Object.keys\<close>, \<open>__proto__\<close> is not among them, and every key that carries an array
  ends in \<open>[]\<close>.\<close>

definition encoded :: "jsrecord \<Rightarrow> bool" where
  "encoded r \<longleftrightarrow>
     distinct (map fst r) \<and> in_keys_order r \<and> ''__proto__'' \<notin> set (map fst r)
     \<and> (\<forall>kv \<in> set r. isArray (snd kv) \<longrightarrow> endsWith (fst kv) ''[]'')"

section \<open>The console and the subscription patches\<close>

text \<open>
  A call either returns a value or throws one: \<open>Inr\<close> is the returned value, \<open>Inl\<close> the
  thrown one.

  \<open>console.warn\<close> is a mutable global that holds a function. A function value is known by
  its identity: \<open>WarnFn n\<close> is a function that exists outside \<open>index.ts\<close> (a call of it is
  recorded with its arguments), \<open>SuppressingWarn old\<close> is the closure that
  \<open>suppressNoSubscriptionExistsWarning\<close> creates around \<open>oldConsoleWarn = old\<close>.
\<close>

type_synonym 'r completion = "jsvalue + 'r"

datatype warn_fn = WarnFn nat | SuppressingWarn warn_fn

record console_state =
  console_warn :: warn_fn
  warn_calls :: "(nat \<times> jsvalue list) list"

text \<open>\<open>s.includes(needle)\<close>, by scanning the start positions from the left.\<close>

fun includes_str :: "string \<Rightarrow> string \<Rightarrow> bool" where
  "includes_str [] needle = (needle = [])"
| "includes_str (c # cs) needle = (prefix needle (c # cs) \<or> includes_str cs needle)"

definition first_arg :: "jsvalue list \<Rightarrow> jsvalue" where
  "first_arg args = (case args of [] \<Rightarrow> JUndefined | a # _ \<Rightarrow> a)"

text \<open>The test of the wrapper: \<open>typeof args[0] === "string" && args[0].includes(...)\<close>.\<close>

definition no_subscription_warning :: string where
  "no_subscription_warning =
     '' doesn't exist. Subscribing anyway.''"

definition isSuppressed :: "jsvalue list \<Rightarrow> bool" where
  "isSuppressed args =
     (case first_arg args of
        JStr s \<Rightarrow> includes_str s no_subscription_warning
      | _ \<Rightarrow> False)"

text \<open>Calling a function value that sits in \<open>console.warn\<close>.\<close>

fun call_warn :: "warn_fn \<Rightarrow> jsvalue list \<Rightarrow> (nat \<times> jsvalue list) list
    \<Rightarrow> (nat \<times> jsvalue list) list" where
  "call_warn (WarnFn n) args calls = calls @ [(n, args)]"
| "call_warn (SuppressingWarn oldConsoleWarn) args calls =
     (if isSuppressed args then calls else call_warn oldConsoleWarn args calls)"

text \<open>\<open>console.warn(...args)\<close> in a given state.\<close>

definition warn :: "jsvalue list \<Rightarrow> 'a console_state_scheme \<Rightarrow> 'a console_state_scheme" where
  "warn args w = w\<lparr>warn_calls := call_warn (console_warn w) args (warn_calls w)\<rparr>"

text \<open>
  \<open>suppressNoSubscriptionExistsWarning(f)\<close>: \<open>f\<close> is any computation on the state; the
  \<open>finally\<close> block runs on both exits of \<open>f\<close>.
\<close>

definition suppressNoSubscriptionExistsWarning ::
  "('a console_state_scheme \<Rightarrow> 'r completion \<times> 'a console_state_scheme)
    \<Rightarrow> 'a console_state_scheme \<Rightarrow> 'r completion \<times> 'a console_state_scheme" where
  "suppressNoSubscriptionExistsWarning f w =
     (let oldConsoleWarn = console_warn w;
          w1 = w\<lparr>console_warn := SuppressingWarn oldConsoleWarn\<rparr>
      in case f w1 of
           (Inr v, w2) \<Rightarrow> (Inr v, w2\<lparr>console_warn := oldConsoleWarn\<rparr>)
         | (Inl e, w2) \<Rightarrow> (Inl e, w2\<lparr>console_warn := oldConsoleWarn\<rparr>))"

text \<open>A thunk that calls \<open>console.warn\<close> with each of the given argument lists and then
  returns or throws.\<close>

definition warning_thunk ::
  "jsvalue list list \<Rightarrow> 'r completion \<Rightarrow> 'a console_state_scheme
    \<Rightarrow> 'r completion \<times> 'a console_state_scheme" where
  "warning_thunk warnings r w = (r, fold warn warnings w)"

text \<open>
  \<open>patchSubscriptions\<close> replaces \<open>eth.subscribe\<close> by a function of the type and the
  remaining arguments that calls the previous \<open>eth.subscribe\<close> (\<open>oldSubscribe\<close>).
\<close>

definition patchSubscriptions ::
  "(string \<Rightarrow> jsvalue list \<Rightarrow> 'a console_state_scheme \<Rightarrow> 'r completion \<times> 'a console_state_scheme)
    \<Rightarrow> string \<Rightarrow> jsvalue list \<Rightarrow> 'a console_state_scheme
    \<Rightarrow> 'r completion \<times> 'a console_state_scheme" where
  "patchSubscriptions oldSubscribe type rest =
     (if type = ''alchemy_fullPendingTransactions'' \<or>
         type = ''alchemy_newFullPendingTransactions''
      then suppressNoSubscriptionExistsWarning
             (oldSubscribe ''alchemy_newFullPendingTransactions'' rest)
      else if type = ''alchemy_filteredNewFullPendingTransactions'' \<or>
              type = ''alchemy_filteredPendingTransactions'' \<or>
              type = ''alchemy_filteredFullPendingTransactions''
      then suppressNoSubscriptionExistsWarning
             (oldSubscribe ''alchemy_filteredNewFullPendingTransactions'' rest)
      else oldSubscribe type rest)"

text \<open>
  The \<open>eth.subscribe\<close> of Web3 is not part of the repository. It is any function of the
  type, the remaining arguments and the console; every call of it is recorded in
  \<open>subscribe_calls\<close>, which it cannot touch itself.
\<close>

record eth_state = console_state +
  subscribe_calls :: "(string \<times> jsvalue list) list"

definition recorded_subscribe ::
  "(string \<Rightarrow> jsvalue list \<Rightarrow> console_state \<Rightarrow> 'r completion \<times> console_state)
    \<Rightarrow> string \<Rightarrow> jsvalue list \<Rightarrow> eth_state \<Rightarrow> 'r completion \<times> eth_state" where
  "recorded_subscribe web3_subscribe type rest w =
     (case web3_subscribe type rest \<lparr>console_warn = console_warn w, warn_calls = warn_calls w\<rparr> of
        (r, c) \<Rightarrow>
          (r, \<lparr>console_warn = console_warn c, warn_calls = warn_calls c,
               subscribe_calls = subscribe_calls w @ [(type, rest)]\<rparr>))"

text \<open>
  The patched \<open>subscription.prototype._validateArgs\<close>. \<open>this\<close> is a Web3 subscription
  object: its \<open>subscriptionMethod\<close>, and \<open>options.subscription\<close>, which is an object or
  absent (\<open>None\<close>). The previous \<open>_validateArgs\<close> is any function of \<open>this\<close> and the
  arguments that returns or throws and may change \<open>this\<close>.
\<close>

record subscription_this =
  subscriptionMethod :: string
  options_subscription :: "jsrecord option"

definition validateArgs ::
  "('a subscription_this_scheme \<Rightarrow> jsvalue \<Rightarrow> unit completion \<times> 'a subscription_this_scheme)
    \<Rightarrow> 'a subscription_this_scheme \<Rightarrow> jsvalue
    \<Rightarrow> unit completion \<times> 'a subscription_this_scheme" where
  "validateArgs oldSubscriptionPrototypeValidateArgs this args =
     (if subscriptionMethod this \<in> set [''alchemy_filteredNewFullPendingTransactions'',
                                        ''alchemy_filteredPendingTransactions'',
                                        ''alchemy_filteredFullPendingTransactions'']
      then (Inr (), this)
      else
        let this1 =
              (if subscriptionMethod this \<in> set [''alchemy_fullPendingTransactions'',
                                                 ''alchemy_newFullPendingTransactions'']
               then (case options_subscription this of
                       Some subscription \<Rightarrow>
                         this\<lparr>options_subscription :=
                                Some (set_prop subscription ''subscriptionName''
                                        (JStr (subscriptionMethod this)))\<rparr>
                     | None \<Rightarrow> this)
               else this)
        in case oldSubscriptionPrototypeValidateArgs this1 args of
             (Inl e, this2) \<Rightarrow> (Inl e, this2)
           | (Inr _, this2) \<Rightarrow> (Inr (), this2))"

text \<open>
  The alias table of the subscription adapter as the specification words it: public
  subscription-type names and the wire-level names they stand for. A name that is not in
  the table is its own wire-level name.
\<close>

definition alias_table :: "(string \<times> string) list" where
  "alias_table =
     [(''alchemy_fullPendingTransactions'', ''alchemy_newFullPendingTransactions''),
      (''alchemy_newFullPendingTransactions'', ''alchemy_newFullPendingTransactions''),
      (''alchemy_filteredNewFullPendingTransactions'', ''alchemy_filteredNewFullPendingTransactions''),
      (''alchemy_filteredPendingTransactions'', ''alchemy_filteredNewFullPendingTransactions''),
      (''alchemy_filteredFullPendingTransactions'', ''alchemy_filteredNewFullPendingTransactions'')]"

definition wire_name :: "string \<Rightarrow> string" where
  "wire_name type = (case map_of alias_table type of Some wire \<Rightarrow> wire | None \<Rightarrow> type)"

section \<open>Configuration defaults\<close>

text \<open>
  \<open>AlchemyWeb3Config\<close>: every field is optional. A destructuring default applies exactly
  when the property is \<open>undefined\<close> (or missing): \<open>None\<close> for the typed fields,
  \<open>JUndefined\<close> for \<open>writeProvider\<close>, whose value may also be \<open>null\<close>. Middlewares are
  functions and stay abstract (\<open>'m\<close>).
\<close>

definition DEFAULT_MAX_RETRIES :: int where
  "DEFAULT_MAX_RETRIES = 3"

definition DEFAULT_RETRY_INTERVAL :: int where
  "DEFAULT_RETRY_INTERVAL = 1000"

definition DEFAULT_RETRY_JITTER :: int where
  "DEFAULT_RETRY_JITTER = 250"

record 'm AlchemyWeb3Config =
  writeProvider_opt :: jsvalue
  jsonRpcSenderMiddlewares_opt :: "'m list option"
  maxRetries_opt :: "int option"
  retryInterval_opt :: "int option"
  retryJitter_opt :: "int option"

record 'm FullConfig =
  writeProvider :: jsvalue
  jsonRpcSenderMiddlewares :: "'m list"
  maxRetries :: int
  retryInterval :: int
  retryJitter :: int

text \<open>The global \<open>window\<close>: \<open>None\<close> when \<open>typeof window\<close> is \<open>"undefined"\<close>, and the window
  object with its properties otherwise.\<close>

definition getWindowProvider :: "jsrecord option \<Rightarrow> jsvalue" where
  "getWindowProvider window =
     (case window of Some w \<Rightarrow> get_prop w ''ethereum'' | None \<Rightarrow> JNull)"

text \<open>The parameter default \<open>= {}\<close>: the configuration with no field set.\<close>

definition empty_config :: "'m AlchemyWeb3Config" where
  "empty_config =
     \<lparr>writeProvider_opt = JUndefined, jsonRpcSenderMiddlewares_opt = None,
      maxRetries_opt = None, retryInterval_opt = None, retryJitter_opt = None\<rparr>"

definition fillInConfigDefaults ::
  "jsrecord option \<Rightarrow> 'm AlchemyWeb3Config option \<Rightarrow> 'm FullConfig" where
  "fillInConfigDefaults window config =
     (let c = (case config of None \<Rightarrow> empty_config | Some c \<Rightarrow> c)
      in \<lparr>writeProvider =
             (if writeProvider_opt c = JUndefined then getWindowProvider window
              else writeProvider_opt c),
           jsonRpcSenderMiddlewares =
             (case jsonRpcSenderMiddlewares_opt c of None \<Rightarrow> [] | Some ms \<Rightarrow> ms),
           maxRetries = (case maxRetries_opt c of None \<Rightarrow> DEFAULT_MAX_RETRIES | Some n \<Rightarrow> n),
           retryInterval =
             (case retryInterval_opt c of None \<Rightarrow> DEFAULT_RETRY_INTERVAL | Some n \<Rightarrow> n),
           retryJitter =
             (case retryJitter_opt c of None \<Rightarrow> DEFAULT_RETRY_JITTER | Some n \<Rightarrow> n)\<rparr>)"

section \<open>The client object\<close>

text \<open>\<open>new Error(message)\<close> as a value.\<close>

definition new_Error :: "string \<Rightarrow> jsvalue" where
  "new_Error message = JObj [(''name'', JStr ''Error''), (''message'', JStr message)]"





section \<open>Token balances\<close>

text \<open>
  \<open>TokenBalancesResponse\<close> and its entries; fields beyond the ones named here are the
  extension of the record. \<open>tokenBalance\<close> is a string, \<open>null\<close> or absent (\<open>JUndefined\<close>).
  \<open>ABIDecoder.decodeParameter\<close> belongs to \<open>web3-eth-abi\<close> and is a parameter: given the
  type name and the encoded value it returns the decoded value or throws.
\<close>

record TokenBalance =
  contractAddress :: string
  tokenBalance :: jsvalue

record 'b TokenBalancesResponse =
  address :: string
  tokenBalances :: "'b TokenBalance_scheme list"

text \<open>\<open>Array.prototype.map\<close> with a callback that may throw: the first throw ends the map.\<close>

fun map_throwing :: "('a \<Rightarrow> 'b completion) \<Rightarrow> 'a list \<Rightarrow> 'b list completion" where
  "map_throwing f [] = Inr []"
| "map_throwing f (x # xs) =
     (case f x of
        Inl e \<Rightarrow> Inl e
      | Inr y \<Rightarrow> (case map_throwing f xs of Inl e \<Rightarrow> Inl e | Inr ys \<Rightarrow> Inr (y # ys)))"

text \<open>\<open>x != null\<close> is false for \<open>null\<close> and for \<open>undefined\<close>.\<close>

definition not_nullish :: "jsvalue \<Rightarrow> bool" where
  "not_nullish x \<longleftrightarrow> x \<noteq> JNull \<and> x \<noteq> JUndefined"

definition fixTokenBalance ::
  "(string \<Rightarrow> jsvalue \<Rightarrow> jsvalue completion) \<Rightarrow> 'b TokenBalance_scheme
    \<Rightarrow> 'b TokenBalance_scheme completion" where
  "fixTokenBalance decodeParameter balance =
     (if not_nullish (tokenBalance balance)
      then (case decodeParameter ''uint256'' (tokenBalance balance) of
              Inl e \<Rightarrow> Inl e
            | Inr decoded \<Rightarrow> Inr (balance\<lparr>tokenBalance := decoded\<rparr>))
      else Inr balance)"

definition processTokenBalanceResponse ::
  "(string \<Rightarrow> jsvalue \<Rightarrow> jsvalue completion) \<Rightarrow> ('b, 'c) TokenBalancesResponse_scheme
    \<Rightarrow> ('b, 'c) TokenBalancesResponse_scheme completion" where
  "processTokenBalanceResponse decodeParameter rawResponse =
     (case map_throwing (fixTokenBalance decodeParameter) (tokenBalances rawResponse) of
        Inl e \<Rightarrow> Inl e
      | Inr fixedTokenBalances \<Rightarrow> Inr (rawResponse\<lparr>tokenBalances := fixedTokenBalances\<rparr>))"

section \<open>The retrying sender\<close>

text \<open>
  Modelled from the spec: the retrying JSON-RPC sender (\<open>jsonRpcSenders.send\<close>, imported
  from \<open>./util/jsonRpc\<close> and built by \<open>makeAlchemyContext\<close>) is not in \<open>index.ts\<close>. The
  specification describes it: a failure is transient or permanent; a transient failure is
  retried up to \<open>maxRetries\<close> times, after a wait of \<open>retryInterval\<close> plus a random part
  below \<open>retryJitter\<close>; a permanent failure propagates at once; when the retries are used
  up the last error is returned. The transport is the outcome of each attempt in turn,
  the random source is the jitter drawn for each retry in turn. The result is the outcome,
  the number of attempts made and the waits.
\<close>

datatype attempt_outcome = Success jsvalue | Transient jsvalue | Permanent jsvalue

fun send_from ::
  "nat \<Rightarrow> int \<Rightarrow> (nat \<Rightarrow> int) \<Rightarrow> (nat \<Rightarrow> attempt_outcome) \<Rightarrow> nat \<Rightarrow> int list
    \<Rightarrow> jsvalue completion \<times> nat \<times> int list" where
  "send_from 0 interval jitter transport attempt waits =
     (case transport attempt of
        Success v \<Rightarrow> (Inr v, Suc attempt, waits)
      | Permanent e \<Rightarrow> (Inl e, Suc attempt, waits)
      | Transient e \<Rightarrow> (Inl e, Suc attempt, waits))"
| "send_from (Suc retriesLeft) interval jitter transport attempt waits =
     (case transport attempt of
        Success v \<Rightarrow> (Inr v, Suc attempt, waits)
      | Permanent e \<Rightarrow> (Inl e, Suc attempt, waits)
      | Transient e \<Rightarrow>
          send_from retriesLeft interval jitter transport (Suc attempt)
            (waits @ [interval + jitter attempt]))"

text \<open>Modelled from the spec: \<open>send\<close> of the JSON-RPC dispatcher with a given configuration,
  from the first attempt.\<close>

definition send ::
  "'m FullConfig \<Rightarrow> (nat \<Rightarrow> int) \<Rightarrow> (nat \<Rightarrow> attempt_outcome)
    \<Rightarrow> jsvalue completion \<times> nat \<times> int list" where
  "send config jitter transport =
     send_from (nat (maxRetries config)) (retryInterval config) jitter transport 0 []"

section \<open>Promise and callback\<close>












section \<open>Proofs: the REST parameter encoding\<close>

subsection \<open>The suffix test\<close>

lemma lastIndexOf_from_le: "lastIndexOf_from s ending k \<le> int k"
  by (induction k) auto

lemma lastIndexOf_from_hit:
  "take (length ending) (drop k s) = ending \<Longrightarrow> lastIndexOf_from s ending k = int k"
  by (cases k) auto

lemma lastIndexOf_from_miss:
  assumes "take (length ending) (drop k s) \<noteq> ending"
  shows "lastIndexOf_from s ending k < int k"
proof (cases k)
  case 0
  with assms show ?thesis by simp
next
  case (Suc j)
  with assms have "lastIndexOf_from s ending k = lastIndexOf_from s ending j" by simp
  also have "\<dots> \<le> int j" by (rule lastIndexOf_from_le)
  finally show ?thesis using Suc by simp
qed

lemma suffix_iff_drop:
  assumes "length ending \<le> length s"
  shows "suffix ending s \<longleftrightarrow> drop (length s - length ending) s = ending"
proof
  assume "suffix ending s"
  then obtain ps where s: "s = ps @ ending" by (auto simp: suffix_def)
  then show "drop (length s - length ending) s = ending" by simp
next
  assume "drop (length s - length ending) s = ending"
  then have "s = take (length s - length ending) s @ ending"
    by (metis append_take_drop_id)
  then show "suffix ending s" by (metis suffixI)
qed

lemma endsWith_suffix: "endsWith s ending \<longleftrightarrow> suffix ending s"
proof (cases "length s < length ending")
  case True
  then have "\<not> suffix ending s" by (auto dest: suffix_length_le)
  with True show ?thesis by (simp add: endsWith_def lastIndexOf_def)
next
  case False
  define k where "k = length s - length ending"
  have len: "length (drop k s) = length ending" using False by (simp add: k_def)
  have idx: "int (length s) - int (length ending) = int k" using False by (simp add: k_def)
  have suf: "suffix ending s \<longleftrightarrow> drop k s = ending"
    unfolding k_def using False by (intro suffix_iff_drop) simp
  have li: "lastIndexOf s ending = lastIndexOf_from s ending k"
    using False by (simp add: lastIndexOf_def k_def)
  show ?thesis
  proof (cases "drop k s = ending")
    case True
    then have "take (length ending) (drop k s) = ending" by simp
    then have "lastIndexOf_from s ending k = int k" by (rule lastIndexOf_from_hit)
    with True suf idx li show ?thesis by (simp add: endsWith_def)
  next
    case ne: False
    then have "take (length ending) (drop k s) \<noteq> ending" using len by simp
    then have "lastIndexOf_from s ending k < int k" by (rule lastIndexOf_from_miss)
    with ne suf idx li show ?thesis by (simp add: endsWith_def)
  qed
qed

lemma endsWith_toArrayKey: "endsWith (toArrayKey key) ''[]''"
  by (simp add: toArrayKey_def endsWith_suffix suffix_def)

lemma toArrayKey_idem: "toArrayKey (toArrayKey key) = toArrayKey key"
  using endsWith_toArrayKey [of key] by (simp add: toArrayKey_def [of "toArrayKey key"])

subsection \<open>Assignment to a property\<close>

lemma update_prop_keys: "map fst (update_prop r key value) = map fst r"
  by (induction r key "value" rule: update_prop.induct) auto

lemma update_prop_entries: "set (update_prop r key value) \<subseteq> insert (key, value) (set r)"
  by (induction r key "value" rule: update_prop.induct) auto

lemma insert_index_entries: "set (insert_index n kv r) = insert kv (set r)"
  by (induction r) (auto split: option.splits)

lemma insert_index_distinct:
  "distinct (map fst r) \<Longrightarrow> fst kv \<notin> set (map fst r) \<Longrightarrow> distinct (map fst (insert_index n kv r))"
proof (induction r)
  case Nil
  then show ?case by simp
next
  case (Cons e es)
  have "fst e \<notin> fst ` set (insert_index n kv es)"
    using Cons.prems by (auto simp: insert_index_entries)
  with Cons show ?case by (auto split: option.splits)
qed

lemma set_prop_entries: "set (set_prop r key value) \<subseteq> insert (key, value) (set r)"
  using update_prop_entries [of r key "value"]
  by (auto simp: set_prop_def insert_index_entries split: option.splits)

lemma set_prop_new:
  assumes "key \<notin> set (map fst r)" and "key \<noteq> ''__proto__''"
  shows "set (set_prop r key value) = insert (key, value) (set r)"
  using assms by (auto simp: set_prop_def hasOwnProperty_def insert_index_entries split: option.splits)

lemma set_prop_keys_subset: "set (map fst (set_prop r key value)) \<subseteq> insert key (set (map fst r))"
  using set_prop_entries [of r key "value"] by auto

lemma set_prop_distinct:
  assumes "distinct (map fst r)"
  shows "distinct (map fst (set_prop r key value))"
proof (cases "hasOwnProperty r key")
  case True
  with assms show ?thesis by (simp add: set_prop_def update_prop_keys)
next
  case False
  then have "fst (key, value) \<notin> set (map fst r)" by (simp add: hasOwnProperty_def)
  from insert_index_distinct [OF assms this] False assms
  show ?thesis by (auto simp: set_prop_def hasOwnProperty_def split: option.splits)
qed

lemma set_prop_no_proto:
  assumes "''__proto__'' \<notin> set (map fst r)"
  shows "''__proto__'' \<notin> set (map fst (set_prop r key value))"
proof (cases "key = ''__proto__''")
  case True
  with assms show ?thesis by (simp add: set_prop_def hasOwnProperty_def)
next
  case False
  with assms set_prop_keys_subset [of r key "value"] show ?thesis by auto
qed

lemma map_of_update_prop:
  "map_of (update_prop r key value) k
     = (if k = key \<and> map_of r key \<noteq> None then Some value else map_of r k)"
  by (induction r key "value" rule: update_prop.induct) auto

lemma get_prop_update_prop:
  "get_prop (update_prop r key value) k
     = (if k = key \<and> key \<in> set (map fst r) then value else get_prop r k)"
proof -
  have "map_of r key \<noteq> None \<longleftrightarrow> key \<in> set (map fst r)"
    by (simp add: map_of_eq_None_iff)
  then show ?thesis by (simp add: get_prop_def map_of_update_prop)
qed

lemma get_prop_set_prop:
  assumes "key \<noteq> ''__proto__''" and "array_index key = None"
  shows "get_prop (set_prop r key value) k = (if k = key then value else get_prop r k)"
proof (cases "hasOwnProperty r key")
  case True
  then show ?thesis
    by (simp add: set_prop_def get_prop_update_prop hasOwnProperty_def)
next
  case False
  then have "map_of r key = None" by (simp add: hasOwnProperty_def map_of_eq_None_iff)
  with False assms show ?thesis
    by (auto simp: set_prop_def get_prop_def map_add_def split: option.splits)
qed

subsection \<open>The order of the keys\<close>

lemma key_precedes_trans: "key_precedes a b \<Longrightarrow> key_precedes b c \<Longrightarrow> key_precedes a c"
  by (auto simp: key_precedes_def split: option.splits)

lemma key_precedes_index:
  "array_index k = Some n \<Longrightarrow> key_precedes k' k \<longleftrightarrow> (\<exists>m. array_index k' = Some m \<and> m \<le> n)"
  by (auto simp: key_precedes_def split: option.splits)

lemma key_precedes_other: "array_index k = None \<Longrightarrow> key_precedes k' k"
  by (simp add: key_precedes_def)

lemma insert_index_order:
  assumes "sorted_wrt key_precedes (map fst r)" and "array_index (fst kv) = Some n"
  shows "sorted_wrt key_precedes (map fst (insert_index n kv r))"
  using assms(1)
proof (induction r)
  case Nil
  then show ?case by simp
next
  case (Cons e es)
  from Cons.prems have tail: "sorted_wrt key_precedes (map fst es)"
    and head: "\<forall>x \<in> set es. key_precedes (fst e) (fst x)"
    by auto
  show ?case
  proof (cases "\<exists>m. array_index (fst e) = Some m \<and> m \<le> n")
    case True
    then have "key_precedes (fst e) (fst kv)" using assms(2) by (simp add: key_precedes_index)
    with head have "\<forall>x \<in> set (insert_index n kv es). key_precedes (fst e) (fst x)"
      by (auto simp: insert_index_entries)
    with True Cons.IH [OF tail] show ?thesis by auto
  next
    case False
    then have ins: "insert_index n kv (e # es) = kv # e # es"
      by (auto split: option.splits)
    have first: "key_precedes (fst kv) (fst e)"
      using False assms(2) by (auto simp: key_precedes_def split: option.splits)
    with head have "\<forall>x \<in> set (e # es). key_precedes (fst kv) (fst x)"
      by (auto intro: key_precedes_trans)
    with Cons.prems show ?thesis unfolding ins by auto
  qed
qed

lemma set_prop_order:
  assumes "in_keys_order r"
  shows "in_keys_order (set_prop r key value)"
proof (cases "hasOwnProperty r key \<or> key = ''__proto__''")
  case True
  with assms show ?thesis
    by (auto simp: set_prop_def in_keys_order_def update_prop_keys)
next
  case False
  show ?thesis
  proof (cases "array_index key")
    case None
    then have "\<forall>x \<in> set (map fst r). key_precedes x key" by (simp add: key_precedes_other)
    with assms False None show ?thesis
      by (simp add: set_prop_def in_keys_order_def sorted_wrt_append)
  next
    case (Some n)
    then have "array_index (fst (key, value)) = Some n" by simp
    from insert_index_order [OF _ this] assms False Some show ?thesis
      by (simp add: set_prop_def in_keys_order_def)
  qed
qed

lemma insert_index_last:
  assumes "\<forall>x \<in> set r. \<exists>m. array_index (fst x) = Some m \<and> m \<le> n"
  shows "insert_index n kv r = r @ [kv]"
  using assms by (induction r) auto

lemma set_prop_last:
  assumes "in_keys_order (r @ [(key, value)])" and "key \<notin> set (map fst r)"
    and "key \<noteq> ''__proto__''"
  shows "set_prop r key value = r @ [(key, value)]"
proof (cases "array_index key")
  case None
  with assms show ?thesis by (simp add: set_prop_def hasOwnProperty_def)
next
  case (Some n)
  from assms(1) have "\<forall>x \<in> set r. key_precedes (fst x) key"
    by (simp add: in_keys_order_def sorted_wrt_append)
  then have "\<forall>x \<in> set r. \<exists>m. array_index (fst x) = Some m \<and> m \<le> n"
    by (simp add: key_precedes_index [OF Some])
  then have "insert_index n (key, value) r = r @ [(key, value)]" by (rule insert_index_last)
  with assms Some show ?thesis by (simp add: set_prop_def hasOwnProperty_def)
qed

subsection \<open>The encoding as one pass over the entries\<close>

lemma isArray_encodedKey: "isArray (snd kv) \<Longrightarrow> endsWith (encodedKey kv) ''[]''"
  by (simp add: encodedKey_def endsWith_toArrayKey)

lemma get_prop_entry: "distinct (map fst params) \<Longrightarrow> (k, v) \<in> set params \<Longrightarrow> get_prop params k = v"
  by (simp add: get_prop_def)

lemma fixArrayQueryParams_entries:
  "fixArrayQueryParams params =
     fold (\<lambda>kv result. set_prop result (encodedKey kv) (snd kv))
          (map (\<lambda>key. (key, get_prop params key)) (Object_keys params)) []"
  by (simp add: fixArrayQueryParams_def fold_map comp_def encodedKey_def Let_def cong: if_cong)

lemma entries_of_distinct:
  assumes "distinct (map fst params)"
  shows "map (\<lambda>key. (key, get_prop params key)) (Object_keys params) = params"
proof -
  have "map (\<lambda>kv. (fst kv, get_prop params (fst kv))) params = map (\<lambda>kv. kv) params"
  proof (rule map_cong [OF refl])
    fix kv assume "kv \<in> set params"
    then have "(fst kv, snd kv) \<in> set params" by simp
    with assms have "get_prop params (fst kv) = snd kv" by (rule get_prop_entry)
    then show "(fst kv, get_prop params (fst kv)) = kv" by (simp add: prod_eq_iff)
  qed
  then show ?thesis by (simp add: Object_keys_def comp_def)
qed

lemma fold_set_prop_new:
  assumes "distinct (map encodedKey es)"
    and "encodedKey ` set es \<inter> set (map fst acc) = {}"
    and "''__proto__'' \<notin> encodedKey ` set es"
  shows "set (fold (\<lambda>kv result. set_prop result (encodedKey kv) (snd kv)) es acc)
           = set acc \<union> encodeEntry ` set es"
  using assms
proof (induction es arbitrary: acc)
  case Nil
  then show ?case by simp
next
  case (Cons e es)
  let ?acc = "set_prop acc (encodedKey e) (snd e)"
  from Cons.prems have new: "encodedKey e \<notin> set (map fst acc)" and np: "encodedKey e \<noteq> ''__proto__''"
    by auto
  then have step: "set ?acc = insert (encodeEntry e) (set acc)"
    by (simp add: set_prop_new encodeEntry_def)
  have d: "distinct (map encodedKey es)" using Cons.prems by simp
  have "set (map fst ?acc) = insert (encodedKey e) (set (map fst acc))"
    using step by (simp add: encodeEntry_def)
  then have disj: "encodedKey ` set es \<inter> set (map fst ?acc) = {}"
    using Cons.prems by auto
  have p: "''__proto__'' \<notin> encodedKey ` set es" using Cons.prems by simp
  from Cons.IH [OF d disj p] step show ?case by simp
qed

lemma fixArrayQueryParams_no_collision:
  assumes "distinct (map fst params)" and "distinct (map encodedKey params)"
    and "''__proto__'' \<notin> encodedKey ` set params"
  shows "set (fixArrayQueryParams params) = encodeEntry ` set params"
proof -
  have "fixArrayQueryParams params
          = fold (\<lambda>kv result. set_prop result (encodedKey kv) (snd kv)) params []"
    by (simp add: fixArrayQueryParams_entries entries_of_distinct [OF assms(1)])
  also have "set \<dots> = set [] \<union> encodeEntry ` set params"
    by (rule fold_set_prop_new) (use assms(2,3) in simp_all)
  finally show ?thesis by simp
qed

subsection \<open>Encoded records\<close>

lemma set_prop_encoded:
  assumes "encoded r" and "isArray value \<Longrightarrow> endsWith key ''[]''"
  shows "encoded (set_prop r key value)"
  unfolding encoded_def
proof (intro conjI ballI impI)
  show "distinct (map fst (set_prop r key value))"
    using assms(1) by (simp add: encoded_def set_prop_distinct)
  show "in_keys_order (set_prop r key value)"
    using assms(1) by (simp add: encoded_def set_prop_order)
  show "''__proto__'' \<notin> set (map fst (set_prop r key value))"
    by (rule set_prop_no_proto) (use assms(1) in \<open>simp add: encoded_def\<close>)
next
  fix kv assume in_set: "kv \<in> set (set_prop r key value)" and arr: "isArray (snd kv)"
  from in_set set_prop_entries have "kv = (key, value) \<or> kv \<in> set r" by blast
  then show "endsWith (fst kv) ''[]''"
  proof
    assume "kv = (key, value)"
    with arr assms(2) show ?thesis by simp
  next
    assume "kv \<in> set r"
    with arr assms(1) show ?thesis by (simp add: encoded_def)
  qed
qed

lemma fold_set_prop_encoded:
  "encoded acc \<Longrightarrow> encoded (fold (\<lambda>kv result. set_prop result (encodedKey kv) (snd kv)) es acc)"
proof (induction es arbitrary: acc)
  case Nil
  then show ?case by simp
next
  case (Cons e es)
  have "encoded (set_prop acc (encodedKey e) (snd e))"
    using Cons.prems by (rule set_prop_encoded) (rule isArray_encodedKey)
  then show ?case using Cons.IH by simp
qed

lemma fixArrayQueryParams_encoded: "encoded (fixArrayQueryParams params)"
  unfolding fixArrayQueryParams_entries
  by (rule fold_set_prop_encoded) (simp add: encoded_def in_keys_order_def)

lemma encoded_encodedKey:
  assumes "encoded r" and "kv \<in> set r"
  shows "encodedKey kv = fst kv"
proof -
  have "isArray (snd kv) \<Longrightarrow> toArrayKey (fst kv) = fst kv"
    using assms by (simp add: encoded_def toArrayKey_def)
  then show ?thesis by (simp add: encodedKey_def)
qed

lemma fold_set_prop_encoded_suffix:
  assumes "encoded (acc @ es)"
  shows "fold (\<lambda>kv result. set_prop result (encodedKey kv) (snd kv)) es acc = acc @ es"
  using assms
proof (induction es arbitrary: acc)
  case Nil
  then show ?case by simp
next
  case (Cons e es)
  have e: "encodedKey e = fst e"
    by (rule encoded_encodedKey [OF Cons.prems]) simp
  from Cons.prems have order: "in_keys_order (acc @ [(fst e, snd e)])"
    by (simp add: encoded_def in_keys_order_def sorted_wrt_append)
  from Cons.prems have new: "fst e \<notin> set (map fst acc)" and np: "fst e \<noteq> ''__proto__''"
    by (auto simp: encoded_def)
  have step: "set_prop acc (encodedKey e) (snd e) = acc @ [e]"
    using set_prop_last [OF order new np] by (simp add: e)
  from Cons.prems have "encoded ((acc @ [e]) @ es)" by simp
  from Cons.IH [OF this] step show ?case by simp
qed

lemma fixArrayQueryParams_fixed_point:
  assumes "encoded r"
  shows "fixArrayQueryParams r = r"
proof -
  have d: "distinct (map fst r)" using assms by (simp add: encoded_def)
  have "fixArrayQueryParams r
          = fold (\<lambda>kv result. set_prop result (encodedKey kv) (snd kv)) r []"
    by (simp add: fixArrayQueryParams_entries entries_of_distinct [OF d])
  also have "\<dots> = [] @ r"
    by (rule fold_set_prop_encoded_suffix) (use assms in simp)
  finally show ?thesis by simp
qed

subsection \<open>Evaluating the encoding\<close>

lemma array_index_not_digit: "digit_of c = None \<Longrightarrow> array_index (c # cs) = None"
  by (auto simp: array_index_def)

lemma set_prop_empty:
  "key \<noteq> ''__proto__'' \<Longrightarrow> set_prop [] key value = [(key, value)]"
  by (simp add: set_prop_def hasOwnProperty_def split: option.splits)

lemma set_prop_other_key:
  "key \<noteq> ''__proto__'' \<Longrightarrow> array_index key = None \<Longrightarrow> \<not> hasOwnProperty r key \<Longrightarrow>
   set_prop r key value = r @ [(key, value)]"
  by (simp add: set_prop_def)

section \<open>Properties of the REST parameter encoding\<close>

text \<open>
  C1 (as amended). For every parameter record whose entries are mapped to pairwise distinct
  encoded keys, none of which is \<open>__proto__\<close>, \<open>fixArrayQueryParams\<close> returns a record with
  pairwise distinct keys that holds exactly the encoded entries: for each entry of the parameters, a key
  whose value is an array has \<open>[]\<close> appended unless it already ends in \<open>[]\<close>, a key whose
  value is not an array is unchanged, and the value is unchanged.
\<close>

theorem fixArrayQueryParams_renames_array_keys:
  assumes "distinct (map fst params)" and "distinct (map encodedKey params)"
    and "''__proto__'' \<notin> encodedKey ` set params"
  shows "distinct (map fst (fixArrayQueryParams params))
         \<and> set (fixArrayQueryParams params) =
             (\<lambda>(key, value).
                (if isArray value then (if endsWith key ''[]'' then key else key @ ''[]'')
                 else key, value)) ` set params"
proof -
  have "encodeEntry = (\<lambda>(key, value).
          (if isArray value then (if endsWith key ''[]'' then key else key @ ''[]'')
           else key, value))"
    by (auto simp: encodeEntry_def encodedKey_def toArrayKey_def fun_eq_iff)
  with fixArrayQueryParams_no_collision [OF assms] fixArrayQueryParams_encoded [of params]
  show ?thesis by (simp add: encoded_def)
qed

theorem fixArrayQueryParams_renames_array_keys_witness:
  "distinct (map fst [(''ids'', JArr [JNum 1, JNum 2, JNum 3]), (''x'', JNum 1)])
   \<and> distinct (map encodedKey [(''ids'', JArr [JNum 1, JNum 2, JNum 3]), (''x'', JNum 1)])
   \<and> ''__proto__'' \<notin> encodedKey ` set [(''ids'', JArr [JNum 1, JNum 2, JNum 3]), (''x'', JNum 1)]
   \<and> set (fixArrayQueryParams [(''ids'', JArr [JNum 1, JNum 2, JNum 3]), (''x'', JNum 1)])
       = {(''ids[]'', JArr [JNum 1, JNum 2, JNum 3]), (''x'', JNum 1)}
   \<and> fixArrayQueryParams [(''ids'', JArr [JNum 1, JNum 2, JNum 3]), (''x'', JNum 1)]
       = [(''ids[]'', JArr [JNum 1, JNum 2, JNum 3]), (''x'', JNum 1)]
   \<and> set (fixArrayQueryParams [(''ids[]'', JArr [JNum 1, JNum 2, JNum 3])])
       = {(''ids[]'', JArr [JNum 1, JNum 2, JNum 3])}"
proof -
  let ?p = "[(''ids'', JArr [JNum 1, JNum 2, JNum 3]), (''x'', JNum 1)]"
  let ?q = "[(''ids[]'', JArr [JNum 1, JNum 2, JNum 3])]"
  have e1: "\<not> endsWith ''ids'' ''[]''" and e2: "endsWith ''ids[]'' ''[]''"
    by (simp_all add: endsWith_suffix suffix_def)
  have d: "distinct (map fst ?p)" by simp
  have k: "distinct (map encodedKey ?p)"
    by (simp add: encodedKey_def toArrayKey_def e1)
  have n: "''__proto__'' \<notin> encodedKey ` set ?p"
    by (simp add: encodedKey_def toArrayKey_def e1)
  have d': "distinct (map fst ?q)" and k': "distinct (map encodedKey ?q)"
    and n': "''__proto__'' \<notin> encodedKey ` set ?q"
    by (simp_all add: encodedKey_def toArrayKey_def e2)
  have i1: "array_index ''ids[]'' = None" and i2: "array_index ''x'' = None"
    by (simp_all add: array_index_not_digit digit_of_def)
  have l: "fixArrayQueryParams ?p = [(''ids[]'', JArr [JNum 1, JNum 2, JNum 3]), (''x'', JNum 1)]"
    by (simp add: fixArrayQueryParams_def Object_keys_def get_prop_def toArrayKey_def e1
        set_prop_empty set_prop_other_key i2 hasOwnProperty_def)
  from fixArrayQueryParams_renames_array_keys [OF d k n]
  have "set (fixArrayQueryParams ?p) = {(''ids[]'', JArr [JNum 1, JNum 2, JNum 3]), (''x'', JNum 1)}"
    by (auto simp: e1)
  moreover from fixArrayQueryParams_renames_array_keys [OF d' k' n']
  have "set (fixArrayQueryParams ?q) = {(''ids[]'', JArr [JNum 1, JNum 2, JNum 3])}"
    by (simp add: e2)
  ultimately show ?thesis using d k n l by blast
qed

text \<open>
  C1 as stated fails in two ways. When two keys are mapped to one encoded key, one value
  is lost: of \<open>{a: [1], "a[]": [2]}\<close> only \<open>{"a[]": [2]}\<close> is left. When a key \<open>__proto__\<close>
  carries a value that is not an array, the assignment reaches the accessor of the
  prototype and the entry is lost: of \<open>{"__proto__": 5, x: 1}\<close> only \<open>{x: 1}\<close> is left.
\<close>

theorem fixArrayQueryParams_loses_entries_counterexample:
  "distinct (map fst [(''a'', JArr [JNum 1]), (''a[]'', JArr [JNum 2])])
   \<and> fixArrayQueryParams [(''a'', JArr [JNum 1]), (''a[]'', JArr [JNum 2])]
       = [(''a[]'', JArr [JNum 2])]
   \<and> get_prop (fixArrayQueryParams [(''a'', JArr [JNum 1]), (''a[]'', JArr [JNum 2])])
        (toArrayKey ''a'') \<noteq> JArr [JNum 1]
   \<and> distinct (map fst [(''__proto__'', JNum 5), (''x'', JNum 1)])
   \<and> fixArrayQueryParams [(''__proto__'', JNum 5), (''x'', JNum 1)] = [(''x'', JNum 1)]
   \<and> get_prop (fixArrayQueryParams [(''__proto__'', JNum 5), (''x'', JNum 1)]) ''__proto__''
        \<noteq> JNum 5"
proof -
  have e1: "\<not> endsWith ''a'' ''[]''" and e2: "endsWith ''a[]'' ''[]''"
    by (simp_all add: endsWith_suffix suffix_def)
  have i: "array_index ''a[]'' = None" "array_index ''x'' = None"
    by (simp_all add: array_index_not_digit digit_of_def)
  have "fixArrayQueryParams [(''a'', JArr [JNum 1]), (''a[]'', JArr [JNum 2])]
          = [(''a[]'', JArr [JNum 2])]"
    by (simp add: fixArrayQueryParams_def Object_keys_def get_prop_def toArrayKey_def e1 e2
        set_prop_empty) (simp add: set_prop_def hasOwnProperty_def)
  moreover have "fixArrayQueryParams [(''__proto__'', JNum 5), (''x'', JNum 1)] = [(''x'', JNum 1)]"
    by (simp add: fixArrayQueryParams_def Object_keys_def get_prop_def)
      (simp add: set_prop_def hasOwnProperty_def i)
  ultimately show ?thesis by (simp add: get_prop_def toArrayKey_def e1)
qed

text \<open>
  C8. The encoding is idempotent: encoding an encoded record changes nothing, for every
  parameter record.
\<close>

theorem fixArrayQueryParams_idempotent:
  "fixArrayQueryParams (fixArrayQueryParams params) = fixArrayQueryParams params"
  by (rule fixArrayQueryParams_fixed_point) (rule fixArrayQueryParams_encoded)

theorem fixArrayQueryParams_idempotent_witness:
  "fixArrayQueryParams (fixArrayQueryParams [(''ids'', JArr [JNum 1, JNum 2, JNum 3]), (''x'', JNum 1)])
     = [(''ids[]'', JArr [JNum 1, JNum 2, JNum 3]), (''x'', JNum 1)]"
proof -
  have e1: "\<not> endsWith ''ids'' ''[]''"
    by (simp add: endsWith_suffix suffix_def)
  have i2: "array_index ''x'' = None"
    by (simp add: array_index_not_digit digit_of_def)
  have "fixArrayQueryParams [(''ids'', JArr [JNum 1, JNum 2, JNum 3]), (''x'', JNum 1)]
          = [(''ids[]'', JArr [JNum 1, JNum 2, JNum 3]), (''x'', JNum 1)]"
    by (simp add: fixArrayQueryParams_def Object_keys_def get_prop_def toArrayKey_def e1
        set_prop_empty set_prop_other_key i2 hasOwnProperty_def)
  with fixArrayQueryParams_idempotent [of "[(''ids'', JArr [JNum 1, JNum 2, JNum 3]), (''x'', JNum 1)]"]
  show ?thesis by simp
qed

text \<open>Keys that are array indices are enumerated first: \<open>{"0": [7], "1": 5, b: 2}\<close> encodes
  to a record whose keys are \<open>1\<close>, \<open>0[]\<close>, \<open>b\<close> in this order.\<close>

lemma fixArrayQueryParams_index_keys_first:
  "fixArrayQueryParams [(''0'', JArr [JNum 7]), (''1'', JNum 5), (''b'', JNum 2)]
     = [(''1'', JNum 5), (''0[]'', JArr [JNum 7]), (''b'', JNum 2)]"
proof -
  have e: "\<not> endsWith ''0'' ''[]''"
    by (simp add: endsWith_suffix suffix_def)
  have i: "array_index ''0[]'' = None" "array_index ''b'' = None" "array_index ''1'' = Some 1"
    by (simp_all add: array_index_def digit_of_def)
  show ?thesis
    by (simp add: fixArrayQueryParams_def Object_keys_def get_prop_def toArrayKey_def e)
      (simp add: set_prop_def hasOwnProperty_def i)
qed

section \<open>Proofs: the console and the subscription patches\<close>

lemma includes_str_sublist: "includes_str s needle \<longleftrightarrow> sublist needle s"
  by (induction s) (simp_all add: sublist_Cons_right)

lemma isSuppressed_iff:
  "isSuppressed args \<longleftrightarrow> (\<exists>s rest. args = JStr s # rest \<and> sublist no_subscription_warning s)"
  by (auto simp: isSuppressed_def first_arg_def includes_str_sublist
      split: list.splits jsvalue.splits)

lemma warn_under_wrapper:
  "console_warn w = SuppressingWarn old \<Longrightarrow>
   warn args w = (if isSuppressed args then w
                  else w\<lparr>warn_calls := call_warn old args (warn_calls w)\<rparr>)"
  by (simp add: warn_def)

lemma fold_warn_under_wrapper:
  "console_warn w = SuppressingWarn old \<Longrightarrow>
   fold warn warnings w =
     w\<lparr>warn_calls := fold (call_warn old) (filter (\<lambda>args. \<not> isSuppressed args) warnings)
                        (warn_calls w)\<rparr>"
proof (induction warnings arbitrary: w)
  case Nil
  then show ?case by simp
next
  case (Cons args warnings)
  show ?case
  proof (cases "isSuppressed args")
    case True
    with Cons.prems have "warn args w = w" by (simp add: warn_under_wrapper)
    with True Cons.IH [OF Cons.prems] show ?thesis by simp
  next
    case False
    let ?w = "w\<lparr>warn_calls := call_warn old args (warn_calls w)\<rparr>"
    from False Cons.prems have step: "warn args w = ?w" by (simp add: warn_under_wrapper)
    have "console_warn ?w = SuppressingWarn old" using Cons.prems by simp
    from Cons.IH [OF this] step False show ?thesis by simp
  qed
qed

lemma suppress_unfold:
  "suppressNoSubscriptionExistsWarning f w =
     (fst (f (w\<lparr>console_warn := SuppressingWarn (console_warn w)\<rparr>)),
      (snd (f (w\<lparr>console_warn := SuppressingWarn (console_warn w)\<rparr>)))
        \<lparr>console_warn := console_warn w\<rparr>)"
  by (simp add: suppressNoSubscriptionExistsWarning_def Let_def split: prod.splits sum.splits)

lemma suppress_warning_thunk:
  "suppressNoSubscriptionExistsWarning (warning_thunk warnings r) w =
     (r, w\<lparr>warn_calls := fold (call_warn (console_warn w))
                            (filter (\<lambda>args. \<not> isSuppressed args) warnings) (warn_calls w)\<rparr>)"
proof -
  let ?w1 = "w\<lparr>console_warn := SuppressingWarn (console_warn w)\<rparr>"
  have "console_warn ?w1 = SuppressingWarn (console_warn w)" by simp
  from fold_warn_under_wrapper [OF this, of warnings]
  show ?thesis by (simp add: suppress_unfold warning_thunk_def)
qed

text \<open>
  C3. For every \<open>f\<close>, \<open>console.warn\<close> after \<open>suppressNoSubscriptionExistsWarning(f)\<close> is
  what it was before, whether \<open>f\<close> returns or throws, and the value returned or thrown is
  that of \<open>f\<close>. In the state that \<open>f\<close> is started in, a call of \<open>console.warn\<close> does nothing
  exactly when its first argument is a string that contains the warning text, and is a
  call of the original \<open>console.warn\<close> otherwise; so a thunk that warns any number of times
  leaves exactly the calls that are not suppressed, in order, on the original function.
\<close>

theorem suppressNoSubscriptionExistsWarning_restores_console_warn:
  "console_warn (snd (suppressNoSubscriptionExistsWarning f w)) = console_warn w
   \<and> fst (suppressNoSubscriptionExistsWarning f w)
       = fst (f (w\<lparr>console_warn := SuppressingWarn (console_warn w)\<rparr>))
   \<and> warn args (w\<lparr>console_warn := SuppressingWarn (console_warn w)\<rparr>)
       = (if (\<exists>s rest. args = JStr s # rest \<and> sublist no_subscription_warning s)
          then w\<lparr>console_warn := SuppressingWarn (console_warn w)\<rparr>
          else w\<lparr>console_warn := SuppressingWarn (console_warn w),
                 warn_calls := call_warn (console_warn w) args (warn_calls w)\<rparr>)
   \<and> suppressNoSubscriptionExistsWarning (warning_thunk warnings r) w
       = (r, w\<lparr>warn_calls := fold (call_warn (console_warn w))
                   (filter (\<lambda>args. \<not> (\<exists>s rest. args = JStr s # rest
                                            \<and> sublist no_subscription_warning s)) warnings)
                   (warn_calls w)\<rparr>)"
proof (intro conjI)
  let ?w1 = "w\<lparr>console_warn := SuppressingWarn (console_warn w)\<rparr>"
  show "console_warn (snd (suppressNoSubscriptionExistsWarning f w)) = console_warn w"
    by (simp add: suppress_unfold)
  show "fst (suppressNoSubscriptionExistsWarning f w) = fst (f ?w1)"
    by (simp add: suppress_unfold)
  have eq: "\<And>args. (\<exists>s rest. args = JStr s # rest \<and> sublist no_subscription_warning s)
                  = isSuppressed args"
    by (simp add: isSuppressed_iff)
  have "console_warn ?w1 = SuppressingWarn (console_warn w)" by simp
  from warn_under_wrapper [OF this, of args]
  show "warn args ?w1
       = (if (\<exists>s rest. args = JStr s # rest \<and> sublist no_subscription_warning s)
          then ?w1
          else w\<lparr>console_warn := SuppressingWarn (console_warn w),
                 warn_calls := call_warn (console_warn w) args (warn_calls w)\<rparr>)"
    unfolding eq by simp
  show "suppressNoSubscriptionExistsWarning (warning_thunk warnings r) w
       = (r, w\<lparr>warn_calls := fold (call_warn (console_warn w))
                   (filter (\<lambda>args. \<not> (\<exists>s rest. args = JStr s # rest
                                            \<and> sublist no_subscription_warning s)) warnings)
                   (warn_calls w)\<rparr>)"
    unfolding eq by (rule suppress_warning_thunk)
qed

theorem suppressNoSubscriptionExistsWarning_restores_console_warn_witness:
  "suppressNoSubscriptionExistsWarning
     (warning_thunk
        [[JStr ''Subscription x doesn't exist. Subscribing anyway.'', JNum 1],
         [JStr ''deprecated''],
         [],
         [JNum 7, JStr '' doesn't exist. Subscribing anyway.'']]
        (Inl (JStr ''boom'') :: unit completion))
     \<lparr>console_warn = WarnFn 0, warn_calls = []\<rparr>
   = (Inl (JStr ''boom''),
      \<lparr>console_warn = WarnFn 0,
       warn_calls = [(0, [JStr ''deprecated'']), (0, []),
                     (0, [JNum 7, JStr '' doesn't exist. Subscribing anyway.''])]\<rparr>)"
proof -
  let ?warnings = "[[JStr ''Subscription x doesn't exist. Subscribing anyway.'', JNum 1],
                    [JStr ''deprecated''], [],
                    [JNum 7, JStr '' doesn't exist. Subscribing anyway.'']]"
  let ?w = "\<lparr>console_warn = WarnFn 0, warn_calls = []\<rparr>"
  let ?r = "Inl (JStr ''boom'') :: unit completion"
  have s: "sublist no_subscription_warning ''Subscription x doesn't exist. Subscribing anyway.''"
    and n: "\<not> sublist no_subscription_warning ''deprecated''"
    unfolding includes_str_sublist [symmetric] no_subscription_warning_def by simp_all
  have "suppressNoSubscriptionExistsWarning (warning_thunk ?warnings ?r) ?w
          = (?r, ?w\<lparr>warn_calls := fold (call_warn (console_warn ?w))
                   (filter (\<lambda>args. \<not> (\<exists>s rest. args = JStr s # rest
                                            \<and> sublist no_subscription_warning s)) ?warnings)
                   (warn_calls ?w)\<rparr>)"
    using suppressNoSubscriptionExistsWarning_restores_console_warn
      [of "warning_thunk [] ?r" ?w "[]" ?warnings ?r]
    by blast
  then show ?thesis by (simp add: s n)
qed

lemma recorded_subscribe_calls:
  "subscribe_calls (snd (recorded_subscribe web3_subscribe type rest w))
     = subscribe_calls w @ [(type, rest)]"
  by (simp add: recorded_subscribe_def split: prod.splits)

lemma recorded_subscribe_result:
  "fst (recorded_subscribe web3_subscribe type rest w)
     = fst (web3_subscribe type rest \<lparr>console_warn = console_warn w, warn_calls = warn_calls w\<rparr>)"
  by (simp add: recorded_subscribe_def split: prod.splits)

lemma wire_name_cases:
  "wire_name type =
     (if type = ''alchemy_fullPendingTransactions'' \<or>
         type = ''alchemy_newFullPendingTransactions''
      then ''alchemy_newFullPendingTransactions''
      else if type = ''alchemy_filteredNewFullPendingTransactions'' \<or>
              type = ''alchemy_filteredPendingTransactions'' \<or>
              type = ''alchemy_filteredFullPendingTransactions''
      then ''alchemy_filteredNewFullPendingTransactions''
      else type)"
  by (simp add: wire_name_def alias_table_def)

lemma aliased_cases:
  "map_of alias_table type = None \<longleftrightarrow>
     \<not> (type = ''alchemy_fullPendingTransactions'' \<or>
        type = ''alchemy_newFullPendingTransactions'' \<or>
        type = ''alchemy_filteredNewFullPendingTransactions'' \<or>
        type = ''alchemy_filteredPendingTransactions'' \<or>
        type = ''alchemy_filteredFullPendingTransactions'')"
  by (simp add: alias_table_def)

text \<open>
  C2. The patched \<open>eth.subscribe\<close> calls the underlying \<open>subscribe\<close> exactly once, with the
  wire-level name that the alias table gives for the type (the type itself when it is not
  in the table) and with the remaining arguments as they were passed; what it returns or
  throws is what that one call returns or throws. The two public names of the full feed
  stand for \<open>alchemy_newFullPendingTransactions\<close>, the three names of the filtered feed for
  \<open>alchemy_filteredNewFullPendingTransactions\<close>.
\<close>

theorem patchSubscriptions_subscribes_once_with_wire_name:
  "subscribe_calls (snd (patchSubscriptions (recorded_subscribe web3_subscribe) type rest w))
     = subscribe_calls w @ [(wire_name type, rest)]
   \<and> fst (patchSubscriptions (recorded_subscribe web3_subscribe) type rest w)
       = fst (web3_subscribe (wire_name type) rest
               \<lparr>console_warn = (if map_of alias_table type = None then console_warn w
                                else SuppressingWarn (console_warn w)),
                warn_calls = warn_calls w\<rparr>)
   \<and> wire_name ''alchemy_fullPendingTransactions'' = ''alchemy_newFullPendingTransactions''
   \<and> wire_name ''alchemy_newFullPendingTransactions'' = ''alchemy_newFullPendingTransactions''
   \<and> wire_name ''alchemy_filteredNewFullPendingTransactions''
       = ''alchemy_filteredNewFullPendingTransactions''
   \<and> wire_name ''alchemy_filteredPendingTransactions''
       = ''alchemy_filteredNewFullPendingTransactions''
   \<and> wire_name ''alchemy_filteredFullPendingTransactions''
       = ''alchemy_filteredNewFullPendingTransactions''
   \<and> (type \<notin> {''alchemy_fullPendingTransactions'', ''alchemy_newFullPendingTransactions'',
                ''alchemy_filteredNewFullPendingTransactions'',
                ''alchemy_filteredPendingTransactions'',
                ''alchemy_filteredFullPendingTransactions''} \<longrightarrow> wire_name type = type)"
proof (intro conjI)
  show "subscribe_calls (snd (patchSubscriptions (recorded_subscribe web3_subscribe) type rest w))
          = subscribe_calls w @ [(wire_name type, rest)]"
    by (simp add: patchSubscriptions_def wire_name_cases suppress_unfold recorded_subscribe_calls)
  show "fst (patchSubscriptions (recorded_subscribe web3_subscribe) type rest w)
       = fst (web3_subscribe (wire_name type) rest
               \<lparr>console_warn = (if map_of alias_table type = None then console_warn w
                                else SuppressingWarn (console_warn w)),
                warn_calls = warn_calls w\<rparr>)"
    by (simp add: patchSubscriptions_def wire_name_cases aliased_cases suppress_unfold
        recorded_subscribe_result)
qed (simp_all add: wire_name_cases)

theorem patchSubscriptions_subscribes_once_with_wire_name_witness:
  "subscribe_calls (snd (patchSubscriptions
       (recorded_subscribe (\<lambda>type rest c. (Inr type, warn [JStr type] c)))
       ''alchemy_fullPendingTransactions'' [JNull, JNum 4]
       \<lparr>console_warn = WarnFn 0, warn_calls = [], subscribe_calls = []\<rparr>))
     = [(''alchemy_newFullPendingTransactions'', [JNull, JNum 4])]
   \<and> subscribe_calls (snd (patchSubscriptions
       (recorded_subscribe (\<lambda>type rest c. (Inr type, warn [JStr type] c)))
       ''alchemy_filteredPendingTransactions'' [JObj [(''address'', JStr ''0x1'')]]
       \<lparr>console_warn = WarnFn 0, warn_calls = [], subscribe_calls = []\<rparr>))
     = [(''alchemy_filteredNewFullPendingTransactions'', [JObj [(''address'', JStr ''0x1'')]])]
   \<and> ''logs'' \<notin> {''alchemy_fullPendingTransactions'', ''alchemy_newFullPendingTransactions'',
                ''alchemy_filteredNewFullPendingTransactions'',
                ''alchemy_filteredPendingTransactions'',
                ''alchemy_filteredFullPendingTransactions''}
   \<and> subscribe_calls (snd (patchSubscriptions
       (recorded_subscribe (\<lambda>type rest c. (Inr type, warn [JStr type] c)))
       ''logs'' [JNull]
       \<lparr>console_warn = WarnFn 0, warn_calls = [], subscribe_calls = []\<rparr>))
     = [(''logs'', [JNull])]"
  using
    patchSubscriptions_subscribes_once_with_wire_name
      [of "\<lambda>type rest c. (Inr type, warn [JStr type] c)" "''alchemy_fullPendingTransactions''"
          "[JNull, JNum 4]" "\<lparr>console_warn = WarnFn 0, warn_calls = [], subscribe_calls = []\<rparr>"]
    patchSubscriptions_subscribes_once_with_wire_name
      [of "\<lambda>type rest c. (Inr type, warn [JStr type] c)" "''alchemy_filteredPendingTransactions''"
          "[JObj [(''address'', JStr ''0x1'')]]"
          "\<lparr>console_warn = WarnFn 0, warn_calls = [], subscribe_calls = []\<rparr>"]
    patchSubscriptions_subscribes_once_with_wire_name
      [of "\<lambda>type rest c. (Inr type, warn [JStr type] c)" "''logs''"
          "[JNull]" "\<lparr>console_warn = WarnFn 0, warn_calls = [], subscribe_calls = []\<rparr>"]
  by simp

lemma array_index_subscriptionName: "array_index ''subscriptionName'' = None"
  by (simp add: array_index_not_digit digit_of_def)

lemma rewrap_completion:
  "(case x of (Inl e, t) \<Rightarrow> (Inl e, t) | (Inr (_::unit), t) \<Rightarrow> (Inr (), t)) = x"
  by (simp split: prod.splits sum.splits)

text \<open>
  C4. The patched \<open>_validateArgs\<close> splits three ways on the subscription method: for the
  three filtered names it validates nothing and accepts any arguments; for
  \<open>alchemy_fullPendingTransactions\<close> and \<open>alchemy_newFullPendingTransactions\<close> it first stores
  the method name as \<open>options.subscription.subscriptionName\<close> (when \<open>options.subscription\<close>
  is there; every other property of that object keeps its value) and then calls the
  original validator; for every other method it calls the original validator on the
  unchanged object.
\<close>

theorem validateArgs_three_way_split:
  "validateArgs oldSubscriptionPrototypeValidateArgs this args =
     (if subscriptionMethod this = ''alchemy_filteredNewFullPendingTransactions'' \<or>
         subscriptionMethod this = ''alchemy_filteredPendingTransactions'' \<or>
         subscriptionMethod this = ''alchemy_filteredFullPendingTransactions''
      then (Inr (), this)
      else if subscriptionMethod this = ''alchemy_fullPendingTransactions'' \<or>
              subscriptionMethod this = ''alchemy_newFullPendingTransactions''
      then oldSubscriptionPrototypeValidateArgs
             (this\<lparr>options_subscription :=
                     map_option (\<lambda>subscription. set_prop subscription ''subscriptionName''
                                                   (JStr (subscriptionMethod this)))
                                (options_subscription this)\<rparr>) args
      else oldSubscriptionPrototypeValidateArgs this args)
   \<and> get_prop (set_prop subscription ''subscriptionName'' (JStr (subscriptionMethod this))) k
       = (if k = ''subscriptionName'' then JStr (subscriptionMethod this)
          else get_prop subscription k)"
proof
  have none: "options_subscription this = None \<Longrightarrow>
      this\<lparr>options_subscription := None\<rparr> = this"
    by simp
  show "validateArgs oldSubscriptionPrototypeValidateArgs this args =
     (if subscriptionMethod this = ''alchemy_filteredNewFullPendingTransactions'' \<or>
         subscriptionMethod this = ''alchemy_filteredPendingTransactions'' \<or>
         subscriptionMethod this = ''alchemy_filteredFullPendingTransactions''
      then (Inr (), this)
      else if subscriptionMethod this = ''alchemy_fullPendingTransactions'' \<or>
              subscriptionMethod this = ''alchemy_newFullPendingTransactions''
      then oldSubscriptionPrototypeValidateArgs
             (this\<lparr>options_subscription :=
                     map_option (\<lambda>subscription. set_prop subscription ''subscriptionName''
                                                   (JStr (subscriptionMethod this)))
                                (options_subscription this)\<rparr>) args
      else oldSubscriptionPrototypeValidateArgs this args)"
    by (cases "options_subscription this")
      (auto simp: validateArgs_def rewrap_completion Let_def none)
  show "get_prop (set_prop subscription ''subscriptionName'' (JStr (subscriptionMethod this))) k
       = (if k = ''subscriptionName'' then JStr (subscriptionMethod this)
          else get_prop subscription k)"
    by (rule get_prop_set_prop) (simp_all add: array_index_subscriptionName)
qed

theorem validateArgs_three_way_split_witness:
  "validateArgs (\<lambda>this args. (if args = JNull then Inl (JStr ''bad args'') else Inr (), this))
     \<lparr>subscriptionMethod = ''alchemy_filteredPendingTransactions'', options_subscription = None\<rparr>
     JNull
   = (Inr (), \<lparr>subscriptionMethod = ''alchemy_filteredPendingTransactions'',
               options_subscription = None\<rparr>)
   \<and> validateArgs (\<lambda>this args. (if args = JNull then Inl (JStr ''bad args'') else Inr (), this))
     \<lparr>subscriptionMethod = ''alchemy_newFullPendingTransactions'',
      options_subscription = Some [(''params'', JNum 0)]\<rparr>
     (JArr [])
   = (Inr (), \<lparr>subscriptionMethod = ''alchemy_newFullPendingTransactions'',
               options_subscription =
                 Some [(''params'', JNum 0),
                       (''subscriptionName'', JStr ''alchemy_newFullPendingTransactions'')]\<rparr>)
   \<and> validateArgs (\<lambda>this args. (if args = JNull then Inl (JStr ''bad args'') else Inr (), this))
     \<lparr>subscriptionMethod = ''logs'', options_subscription = None\<rparr>
     JNull
   = (Inl (JStr ''bad args''), \<lparr>subscriptionMethod = ''logs'', options_subscription = None\<rparr>)"
  using
    validateArgs_three_way_split
      [of "\<lambda>this args. (if args = JNull then Inl (JStr ''bad args'') else Inr (), this)"
          "\<lparr>subscriptionMethod = ''alchemy_filteredPendingTransactions'',
            options_subscription = None\<rparr>" JNull]
    validateArgs_three_way_split
      [of "\<lambda>this args. (if args = JNull then Inl (JStr ''bad args'') else Inr (), this)"
          "\<lparr>subscriptionMethod = ''alchemy_newFullPendingTransactions'',
            options_subscription = Some [(''params'', JNum 0)]\<rparr>" "JArr []"]
    validateArgs_three_way_split
      [of "\<lambda>this args. (if args = JNull then Inl (JStr ''bad args'') else Inr (), this)"
          "\<lparr>subscriptionMethod = ''logs'', options_subscription = None\<rparr>" JNull]
  by (simp add: set_prop_other_key array_index_subscriptionName hasOwnProperty_def)

section \<open>Proofs: configuration defaults\<close>

text \<open>
  C6. With no configuration every field takes its default: 3 retries, an interval of 1000,
  a jitter of 250, no middlewares, and as write provider \<open>window.ethereum\<close> when there is a
  \<open>window\<close> and \<open>null\<close> otherwise. With a configuration, each field that is set is passed
  through and each field that is not set takes the same default.
\<close>

theorem fillInConfigDefaults_fills_unset_fields:
  "fillInConfigDefaults window None =
     \<lparr>writeProvider = (case window of Some w \<Rightarrow> get_prop w ''ethereum'' | None \<Rightarrow> JNull),
      jsonRpcSenderMiddlewares = [], maxRetries = 3, retryInterval = 1000, retryJitter = 250\<rparr>
   \<and> fillInConfigDefaults window (Some c) =
     \<lparr>writeProvider =
        (if writeProvider_opt c = JUndefined
         then (case window of Some w \<Rightarrow> get_prop w ''ethereum'' | None \<Rightarrow> JNull)
         else writeProvider_opt c),
      jsonRpcSenderMiddlewares =
        (case jsonRpcSenderMiddlewares_opt c of None \<Rightarrow> [] | Some ms \<Rightarrow> ms),
      maxRetries = (case maxRetries_opt c of None \<Rightarrow> 3 | Some n \<Rightarrow> n),
      retryInterval = (case retryInterval_opt c of None \<Rightarrow> 1000 | Some n \<Rightarrow> n),
      retryJitter = (case retryJitter_opt c of None \<Rightarrow> 250 | Some n \<Rightarrow> n)\<rparr>"
  by (simp add: fillInConfigDefaults_def empty_config_def getWindowProvider_def
      DEFAULT_MAX_RETRIES_def DEFAULT_RETRY_INTERVAL_def DEFAULT_RETRY_JITTER_def
      split: option.splits)

theorem fillInConfigDefaults_fills_unset_fields_witness:
  "fillInConfigDefaults (Some [(''ethereum'', JObj [(''isMetaMask'', JBool True)])])
     (None :: nat AlchemyWeb3Config option)
   = \<lparr>writeProvider = JObj [(''isMetaMask'', JBool True)], jsonRpcSenderMiddlewares = [],
      maxRetries = 3, retryInterval = 1000, retryJitter = 250\<rparr>
   \<and> fillInConfigDefaults None
       (Some \<lparr>writeProvider_opt = JUndefined, jsonRpcSenderMiddlewares_opt = Some [7::nat],
              maxRetries_opt = Some 0, retryInterval_opt = None, retryJitter_opt = Some 10\<rparr>)
   = \<lparr>writeProvider = JNull, jsonRpcSenderMiddlewares = [7],
      maxRetries = 0, retryInterval = 1000, retryJitter = 10\<rparr>
   \<and> fillInConfigDefaults (Some [(''ethereum'', JObj [])])
       (Some \<lparr>writeProvider_opt = JNull, jsonRpcSenderMiddlewares_opt = (None :: nat list option),
              maxRetries_opt = None, retryInterval_opt = Some 5, retryJitter_opt = None\<rparr>)
   = \<lparr>writeProvider = JNull, jsonRpcSenderMiddlewares = [],
      maxRetries = 3, retryInterval = 5, retryJitter = 250\<rparr>"
proof -
  let ?metamask = "Some [(''ethereum'', JObj [(''isMetaMask'', JBool True)])]"
  let ?c1 = "\<lparr>writeProvider_opt = JUndefined, jsonRpcSenderMiddlewares_opt = Some [7::nat],
              maxRetries_opt = Some 0, retryInterval_opt = None, retryJitter_opt = Some 10\<rparr>"
  let ?c2 = "\<lparr>writeProvider_opt = JNull, jsonRpcSenderMiddlewares_opt = (None :: nat list option),
              maxRetries_opt = None, retryInterval_opt = Some 5, retryJitter_opt = None\<rparr>"
  have "fillInConfigDefaults ?metamask (None :: nat AlchemyWeb3Config option)
          = \<lparr>writeProvider = JObj [(''isMetaMask'', JBool True)], jsonRpcSenderMiddlewares = [],
             maxRetries = 3, retryInterval = 1000, retryJitter = 250\<rparr>"
    using fillInConfigDefaults_fills_unset_fields [of ?metamask ?c1, THEN conjunct1]
    by (simp add: get_prop_def)
  moreover have "fillInConfigDefaults None (Some ?c1)
          = \<lparr>writeProvider = JNull, jsonRpcSenderMiddlewares = [7],
             maxRetries = 0, retryInterval = 1000, retryJitter = 10\<rparr>"
    using fillInConfigDefaults_fills_unset_fields [of None ?c1, THEN conjunct2]
    by simp
  moreover have "fillInConfigDefaults (Some [(''ethereum'', JObj [])]) (Some ?c2)
          = \<lparr>writeProvider = JNull, jsonRpcSenderMiddlewares = [],
             maxRetries = 3, retryInterval = 5, retryJitter = 250\<rparr>"
    using fillInConfigDefaults_fills_unset_fields
      [of "Some [(''ethereum'', JObj [])]" ?c2, THEN conjunct2]
    by simp
  ultimately show ?thesis by blast
qed

section \<open>Proofs: the client object\<close>




section \<open>Proofs: token balances\<close>

lemma map_throwing_Inr:
  "map_throwing f xs = Inr ys \<longleftrightarrow> list_all2 (\<lambda>x y. f x = Inr y) xs ys"
proof (induction xs arbitrary: ys)
  case Nil
  then show ?case by auto
next
  case step: (Cons x xs)
  show ?case
  proof (cases ys)
    case Nil
    then show ?thesis by (simp split: sum.splits)
  next
    case (Cons y ys')
    have "map_throwing f (x # xs) = Inr (y # ys') \<longleftrightarrow>
          f x = Inr y \<and> map_throwing f xs = Inr ys'"
      by (auto split: sum.splits)
    with step.IH [of ys'] Cons show ?thesis by simp
  qed
qed

lemma map_throwing_succeeds:
  "\<forall>x \<in> set xs. \<exists>y. f x = Inr y \<Longrightarrow> \<exists>ys. map_throwing f xs = Inr ys"
  by (induction xs) auto

lemma map_throwing_Inl:
  "map_throwing f xs = Inl e \<Longrightarrow> \<exists>x \<in> set xs. f x = Inl e"
  by (induction xs) (auto split: sum.splits)

lemma fixTokenBalance_Inr:
  "fixTokenBalance decodeParameter balance = Inr fixed \<longleftrightarrow>
     (if not_nullish (tokenBalance balance)
      then decodeParameter ''uint256'' (tokenBalance balance) = Inr (tokenBalance fixed)
           \<and> fixed\<lparr>tokenBalance := tokenBalance balance\<rparr> = balance
      else fixed = balance)"
proof (cases "not_nullish (tokenBalance balance)")
  case False
  then show ?thesis by (auto simp: fixTokenBalance_def)
next
  case True
  show ?thesis
  proof (cases "decodeParameter ''uint256'' (tokenBalance balance)")
    case (Inl e)
    with True show ?thesis by (simp add: fixTokenBalance_def)
  next
    case (Inr decoded)
    have "balance\<lparr>tokenBalance := decoded\<rparr> = fixed \<longleftrightarrow>
          decoded = tokenBalance fixed \<and> fixed\<lparr>tokenBalance := tokenBalance balance\<rparr> = balance"
      by (cases balance, cases fixed) auto
    with True Inr show ?thesis by (simp add: fixTokenBalance_def)
  qed
qed

lemma processTokenBalanceResponse_throws:
  "processTokenBalanceResponse decodeParameter rawResponse = Inl e \<Longrightarrow>
   \<exists>balance \<in> set (tokenBalances rawResponse).
     not_nullish (tokenBalance balance) \<and> decodeParameter ''uint256'' (tokenBalance balance) = Inl e"
  by (auto simp: processTokenBalanceResponse_def fixTokenBalance_def
      split: sum.splits if_splits dest!: map_throwing_Inl)

text \<open>
  C10. Whenever the decoder decodes every token balance of the response that is neither
  \<open>null\<close> nor absent, \<open>processTokenBalanceResponse\<close> returns a response that differs from
  the input in \<open>tokenBalances\<close> only; the entries are as many and in the same order; an
  entry whose \<open>tokenBalance\<close> is \<open>null\<close> or absent is the input entry, and any other entry
  differs from the input entry in \<open>tokenBalance\<close> only, which holds the \<open>uint256\<close> decoding
  of the input's.
\<close>

theorem processTokenBalanceResponse_changes_only_tokenBalance:
  assumes "\<forall>balance \<in> set (tokenBalances rawResponse).
             tokenBalance balance \<noteq> JNull \<and> tokenBalance balance \<noteq> JUndefined \<longrightarrow>
             (\<exists>decoded. decodeParameter ''uint256'' (tokenBalance balance) = Inr decoded)"
  shows "\<exists>response.
           processTokenBalanceResponse decodeParameter rawResponse = Inr response
           \<and> response\<lparr>tokenBalances := tokenBalances rawResponse\<rparr> = rawResponse
           \<and> length (tokenBalances response) = length (tokenBalances rawResponse)
           \<and> list_all2
               (\<lambda>balance fixed.
                  if tokenBalance balance = JNull \<or> tokenBalance balance = JUndefined
                  then fixed = balance
                  else decodeParameter ''uint256'' (tokenBalance balance) = Inr (tokenBalance fixed)
                       \<and> fixed\<lparr>tokenBalance := tokenBalance balance\<rparr> = balance)
               (tokenBalances rawResponse) (tokenBalances response)"
proof -
  have "\<forall>balance \<in> set (tokenBalances rawResponse).
          \<exists>fixed. fixTokenBalance decodeParameter balance = Inr fixed"
    using assms by (auto simp: fixTokenBalance_def not_nullish_def split: sum.splits)
  then obtain fixedTokenBalances where
    m: "map_throwing (fixTokenBalance decodeParameter) (tokenBalances rawResponse)
          = Inr fixedTokenBalances"
    using map_throwing_succeeds by blast
  then have all2: "list_all2 (\<lambda>balance fixed. fixTokenBalance decodeParameter balance = Inr fixed)
                     (tokenBalances rawResponse) fixedTokenBalances"
    by (simp add: map_throwing_Inr)
  have rel: "list_all2
               (\<lambda>balance fixed.
                  if tokenBalance balance = JNull \<or> tokenBalance balance = JUndefined
                  then fixed = balance
                  else decodeParameter ''uint256'' (tokenBalance balance) = Inr (tokenBalance fixed)
                       \<and> fixed\<lparr>tokenBalance := tokenBalance balance\<rparr> = balance)
               (tokenBalances rawResponse) fixedTokenBalances"
    by (rule list_all2_mono [OF all2]) (auto simp: fixTokenBalance_Inr not_nullish_def)
  let ?response = "rawResponse\<lparr>tokenBalances := fixedTokenBalances\<rparr>"
  have "processTokenBalanceResponse decodeParameter rawResponse = Inr ?response"
    by (simp add: processTokenBalanceResponse_def m)
  moreover have "?response\<lparr>tokenBalances := tokenBalances rawResponse\<rparr> = rawResponse"
    by simp
  moreover have "length (tokenBalances ?response) = length (tokenBalances rawResponse)"
    using all2 by (simp add: list_all2_lengthD)
  moreover have "list_all2
               (\<lambda>balance fixed.
                  if tokenBalance balance = JNull \<or> tokenBalance balance = JUndefined
                  then fixed = balance
                  else decodeParameter ''uint256'' (tokenBalance balance) = Inr (tokenBalance fixed)
                       \<and> fixed\<lparr>tokenBalance := tokenBalance balance\<rparr> = balance)
               (tokenBalances rawResponse) (tokenBalances ?response)"
    using rel by simp
  ultimately show ?thesis by blast
qed

theorem processTokenBalanceResponse_changes_only_tokenBalance_witness:
  "processTokenBalanceResponse
     (\<lambda>type encoded. case encoded of JStr s \<Rightarrow> Inr (JStr (''decoded '' @ s))
                                     | _ \<Rightarrow> Inl (new_Error ''invalid''))
     \<lparr>address = ''0xabc'',
      tokenBalances = [\<lparr>contractAddress = ''0x1'', tokenBalance = JNull\<rparr>,
                       \<lparr>contractAddress = ''0x2'', tokenBalance = JStr ''0x10''\<rparr>]\<rparr>
   = Inr \<lparr>address = ''0xabc'',
          tokenBalances = [\<lparr>contractAddress = ''0x1'', tokenBalance = JNull\<rparr>,
                           \<lparr>contractAddress = ''0x2'', tokenBalance = JStr ''decoded 0x10''\<rparr>]\<rparr>"
proof -
  let ?decode = "\<lambda>(type :: string) encoded.
                   case encoded of JStr s \<Rightarrow> Inr (JStr (''decoded '' @ s))
                                 | _ \<Rightarrow> Inl (new_Error ''invalid'')"
  let ?raw = "\<lparr>address = ''0xabc'',
               tokenBalances = [\<lparr>contractAddress = ''0x1'', tokenBalance = JNull\<rparr>,
                                \<lparr>contractAddress = ''0x2'', tokenBalance = JStr ''0x10''\<rparr>]\<rparr>"
  have decodes: "\<forall>balance \<in> set (tokenBalances ?raw).
             tokenBalance balance \<noteq> JNull \<and> tokenBalance balance \<noteq> JUndefined \<longrightarrow>
             (\<exists>decoded. ?decode ''uint256'' (tokenBalance balance) = Inr decoded)"
    by simp
  from processTokenBalanceResponse_changes_only_tokenBalance [OF decodes]
  obtain response where
    r: "processTokenBalanceResponse ?decode ?raw = Inr response"
    and rest: "response\<lparr>tokenBalances := tokenBalances ?raw\<rparr> = ?raw"
    and rel: "list_all2
               (\<lambda>balance fixed.
                  if tokenBalance balance = JNull \<or> tokenBalance balance = JUndefined
                  then fixed = balance
                  else ?decode ''uint256'' (tokenBalance balance) = Inr (tokenBalance fixed)
                       \<and> fixed\<lparr>tokenBalance := tokenBalance balance\<rparr> = balance)
               (tokenBalances ?raw) (tokenBalances response)"
    by blast
  from rel obtain b1 b2 where bs: "tokenBalances response = [b1, b2]"
    and b1: "b1 = \<lparr>contractAddress = ''0x1'', tokenBalance = JNull\<rparr>"
    and b2: "tokenBalance b2 = JStr ''decoded 0x10''"
            "b2\<lparr>tokenBalance := JStr ''0x10''\<rparr>
               = \<lparr>contractAddress = ''0x2'', tokenBalance = JStr ''0x10''\<rparr>"
    by (auto simp: list_all2_Cons1)
  from b2 have "b2 = \<lparr>contractAddress = ''0x2'', tokenBalance = JStr ''decoded 0x10''\<rparr>"
    by (cases b2) simp
  with bs b1 rest have "response = \<lparr>address = ''0xabc'',
          tokenBalances = [\<lparr>contractAddress = ''0x1'', tokenBalance = JNull\<rparr>,
                           \<lparr>contractAddress = ''0x2'', tokenBalance = JStr ''decoded 0x10''\<rparr>]\<rparr>"
    by (cases response) simp
  with r show ?thesis by simp
qed

section \<open>Proofs: the retrying sender\<close>

lemma send_from_Success:
  "transport attempt = Success v \<Longrightarrow>
   send_from retriesLeft interval jitter transport attempt waits = (Inr v, Suc attempt, waits)"
  by (cases retriesLeft) simp_all

lemma send_from_Permanent:
  "transport attempt = Permanent e \<Longrightarrow>
   send_from retriesLeft interval jitter transport attempt waits = (Inl e, Suc attempt, waits)"
  by (cases retriesLeft) simp_all

lemma send_from_Transients:
  assumes "\<forall>k < m. \<exists>e. transport (attempt + k) = Transient e" and "m \<le> retriesLeft"
  shows "send_from retriesLeft interval jitter transport attempt waits =
           send_from (retriesLeft - m) interval jitter transport (attempt + m)
             (waits @ map (\<lambda>k. interval + jitter k) [attempt ..< attempt + m])"
  using assms
proof (induction m arbitrary: retriesLeft attempt waits)
  case 0
  then show ?case by simp
next
  case (Suc m)
  from Suc.prems(2) obtain r where r: "retriesLeft = Suc r" and mr: "m \<le> r"
    by (cases retriesLeft) auto
  from Suc.prems(1) obtain e where e: "transport attempt = Transient e"
    by (metis add.right_neutral zero_less_Suc)
  have later: "\<forall>k < m. \<exists>e. transport (Suc attempt + k) = Transient e"
  proof (intro allI impI)
    fix k assume "k < m"
    then have "Suc k < Suc m" by simp
    with Suc.prems(1) have "\<exists>e. transport (attempt + Suc k) = Transient e" by blast
    then show "\<exists>e. transport (Suc attempt + k) = Transient e" by simp
  qed
  have "send_from retriesLeft interval jitter transport attempt waits =
          send_from r interval jitter transport (Suc attempt) (waits @ [interval + jitter attempt])"
    by (simp add: r e)
  also have "\<dots> = send_from (r - m) interval jitter transport (Suc attempt + m)
                     ((waits @ [interval + jitter attempt])
                      @ map (\<lambda>k. interval + jitter k) [Suc attempt ..< Suc attempt + m])"
    by (rule Suc.IH [OF later mr])
  also have "\<dots> = send_from (retriesLeft - Suc m) interval jitter transport (attempt + Suc m)
                     (waits @ map (\<lambda>k. interval + jitter k) [attempt ..< attempt + Suc m])"
    by (simp add: r upt_conv_Cons del: upt_Suc)
  finally show ?case .
qed

text \<open>
  C7. With \<open>maxRetries = N\<close>: when the first \<open>N\<close> attempts fail transiently and the next one
  succeeds, \<open>send\<close> gives the value of the success after exactly \<open>N + 1\<close> attempts; when an
  attempt fails permanently after only transient failures, \<open>send\<close> gives that error and
  this attempt is the last one.
\<close>

theorem send_retries_transient_failures:
  assumes "maxRetries config = int N"
  shows "((\<forall>k < N. \<exists>e. transport k = Transient e) \<and> transport N = Success v \<longrightarrow>
            fst (send config jitter transport) = Inr v
            \<and> fst (snd (send config jitter transport)) = N + 1)
         \<and> (j \<le> N \<and> (\<forall>k < j. \<exists>e. transport k = Transient e) \<and> transport j = Permanent error \<longrightarrow>
            fst (send config jitter transport) = Inl error
            \<and> fst (snd (send config jitter transport)) = j + 1)"
proof (intro conjI impI)
  assume a: "(\<forall>k < N. \<exists>e. transport k = Transient e) \<and> transport N = Success v"
  then have "\<forall>k < N. \<exists>e. transport (0 + k) = Transient e" by simp
  from send_from_Transients [OF this order_refl, of "retryInterval config" jitter "[]"]
  have s: "send config jitter transport =
        send_from 0 (retryInterval config) jitter transport N
          (map (\<lambda>k. retryInterval config + jitter k) [0 ..< N])"
    by (simp add: send_def assms)
  from a have "transport N = Success v" by simp
  then have "send_from 0 (retryInterval config) jitter transport N
               (map (\<lambda>k. retryInterval config + jitter k) [0 ..< N])
             = (Inr v, Suc N, map (\<lambda>k. retryInterval config + jitter k) [0 ..< N])"
    by (rule send_from_Success)
  with s show "fst (send config jitter transport) = Inr v"
    and "fst (snd (send config jitter transport)) = N + 1"
    by simp_all
next
  assume a: "j \<le> N \<and> (\<forall>k < j. \<exists>e. transport k = Transient e) \<and> transport j = Permanent error"
  then have t: "\<forall>k < j. \<exists>e. transport (0 + k) = Transient e" and le: "j \<le> N" by simp_all
  from send_from_Transients [OF t le, of "retryInterval config" jitter "[]"]
  have s: "send config jitter transport =
        send_from (N - j) (retryInterval config) jitter transport j
          (map (\<lambda>k. retryInterval config + jitter k) [0 ..< j])"
    by (simp add: send_def assms)
  from a have "transport j = Permanent error" by simp
  then have "send_from (N - j) (retryInterval config) jitter transport j
               (map (\<lambda>k. retryInterval config + jitter k) [0 ..< j])
             = (Inl error, Suc j, map (\<lambda>k. retryInterval config + jitter k) [0 ..< j])"
    by (rule send_from_Permanent)
  with s show "fst (send config jitter transport) = Inl error"
    and "fst (snd (send config jitter transport)) = j + 1"
    by simp_all
qed

theorem send_retries_transient_failures_witness:
  "send \<lparr>writeProvider = JNull, jsonRpcSenderMiddlewares = ([] :: nat list), maxRetries = 2,
         retryInterval = 1000, retryJitter = 250\<rparr>
     (\<lambda>k. 17) (\<lambda>k. if k < 2 then Transient (JStr ''timeout'') else Success (JNum 42))
   = (Inr (JNum 42), 3, [1017, 1017])
   \<and> send \<lparr>writeProvider = JNull, jsonRpcSenderMiddlewares = ([] :: nat list), maxRetries = 2,
           retryInterval = 1000, retryJitter = 250\<rparr>
       (\<lambda>k. 17) (\<lambda>k. if k < 1 then Transient (JStr ''timeout'') else Permanent (JStr ''invalid''))
   = (Inl (JStr ''invalid''), 2, [1017])"
proof -
  let ?config = "\<lparr>writeProvider = JNull, jsonRpcSenderMiddlewares = ([] :: nat list),
                  maxRetries = 2, retryInterval = 1000, retryJitter = 250\<rparr>"
  let ?heals = "\<lambda>k::nat. if k < 2 then Transient (JStr ''timeout'') else Success (JNum 42)"
  let ?breaks = "\<lambda>k::nat. if k < 1 then Transient (JStr ''timeout'') else Permanent (JStr ''invalid'')"
  have N: "maxRetries ?config = int 2" by simp
  have "fst (send ?config (\<lambda>k. 17) ?heals) = Inr (JNum 42)
        \<and> fst (snd (send ?config (\<lambda>k. 17) ?heals)) = 2 + 1"
    using send_retries_transient_failures
      [OF N, where transport = ?heals and v = "JNum 42" and jitter = "\<lambda>k. 17"]
    by simp
  moreover have "snd (snd (send ?config (\<lambda>k. 17) ?heals)) = [1017, 1017]"
    by (simp add: send_def eval_nat_numeral)
  moreover have "fst (send ?config (\<lambda>k. 17) ?breaks) = Inl (JStr ''invalid'')
        \<and> fst (snd (send ?config (\<lambda>k. 17) ?breaks)) = 1 + 1"
    using send_retries_transient_failures
      [OF N, where transport = ?breaks and j = 1 and error = "JStr ''invalid''"
         and jitter = "\<lambda>k. 17"]
    by simp
  moreover have "snd (snd (send ?config (\<lambda>k. 17) ?breaks)) = [1017]"
    by (simp add: send_def eval_nat_numeral)
  ultimately show ?thesis by (simp add: prod_eq_iff)
qed

section \<open>Proofs: promise and callback\<close>










end
